theory Spec2Isabelle
  imports Main "HOL-Library.Word"
begin

section \<open>Data model of the CHIRP manager\<close>

text \<open>
  The embedding follows \<^verbatim>\<open>src/CHIRP/Manager.cpp\<close>. The headers of the repository
  (\<^verbatim>\<open>Manager.hpp\<close>, \<^verbatim>\<open>Message.hpp\<close>, \<^verbatim>\<open>BroadcastRecv.hpp\<close>) are not part of the
  sources at hand, so the types they declare are taken as follows.

  \<^item> \<^verbatim>\<open>MD5Hash\<close> is a type parameter \<open>'h\<close> with a linear order: the code only compares
    hashes (\<^verbatim>\<open><=>\<close>, \<^verbatim>\<open>!=\<close>).
  \<^item> \<^verbatim>\<open>asio::ip::address\<close> is a type parameter \<open>'ip\<close>: the code only stores it.
  \<^item> \<^verbatim>\<open>ServiceIdentifier\<close> is an enumeration over one byte; a value is represented by
    its underlying byte, so \<^verbatim>\<open>std::to_underlying\<close> is the identity on the representation.
  \<^item> \<^verbatim>\<open>Port\<close> is an unsigned 16-bit integer.
  \<^item> \<^verbatim>\<open>MessageType\<close> has the three enumerators the \<^verbatim>\<open>switch\<close> of \<^verbatim>\<open>Manager::Run\<close>
    handles; its \<^verbatim>\<open>default\<close> branch is \<^verbatim>\<open>std::unreachable()\<close>.
\<close>

type_synonym ServiceIdentifier = "8 word"
type_synonym Port = "16 word"

datatype MessageType = REQUEST | OFFER | LEAVING

record RegisteredService =
  "identifier" :: ServiceIdentifier
  port :: Port

record ('ip, 'h) DiscoveredService =
  address :: 'ip
  name_hash :: 'h
  "identifier" :: ServiceIdentifier
  port :: Port

text \<open>
  A decoded message, with one field for each getter of the class \<^verbatim>\<open>Message\<close> that
  the manager calls.
\<close>

record 'h Message =
  GetType :: MessageType
  GetGroupHash :: 'h
  GetNameHash :: 'h
  GetServiceIdentifier :: ServiceIdentifier
  GetPort :: Port

text \<open>What \<^verbatim>\<open>RecvBroadcast\<close> returns: the sender's address and the payload.\<close>

record 'ip BroadcastMessage =
  ip :: 'ip
  content :: "8 word list"

datatype DecodeError = DecodeError

subsection \<open>Three-way comparison\<close>

datatype strong_ordering = less | equal | greater

definition three_way :: "'a::linorder \<Rightarrow> 'a \<Rightarrow> strong_ordering" where
  "three_way a b = (if a < b then less else if b < a then greater else equal)"

definition is_lt :: "strong_ordering \<Rightarrow> bool" where
  "is_lt ord = (ord = less)"

definition is_gt :: "strong_ordering \<Rightarrow> bool" where
  "is_gt ord = (ord = greater)"

subsection \<open>The comparison operators of the two service types\<close>

definition RegisteredService_lt :: "RegisteredService \<Rightarrow> RegisteredService \<Rightarrow> bool" where
  "RegisteredService_lt this other =
     (let ord_id = three_way (RegisteredService.identifier this) (RegisteredService.identifier other)
      in if is_lt ord_id then True
         else if is_gt ord_id then False
         else RegisteredService.port this < RegisteredService.port other)"

definition DiscoveredService_lt ::
  "('ip, 'h::linorder) DiscoveredService \<Rightarrow> ('ip, 'h) DiscoveredService \<Rightarrow> bool" where
  "DiscoveredService_lt this other =
     (let ord_md5 = three_way (DiscoveredService.name_hash this) (DiscoveredService.name_hash other)
      in if is_lt ord_md5 then True
         else if is_gt ord_md5 then False
         else
           (let ord_id = three_way (DiscoveredService.identifier this)
                                   (DiscoveredService.identifier other)
            in if is_lt ord_id then True
               else if is_gt ord_id then False
               else DiscoveredService.port this < DiscoveredService.port other))"

text \<open>
  The callback registry is a \<^verbatim>\<open>std::set\<close> of pairs of a function pointer and a user
  pointer; a pointer is modelled by its address, and the order is the one of
  \<^verbatim>\<open>std::pair\<close>.
\<close>

type_synonym callback_data = "nat \<times> nat"

definition callback_lt :: "callback_data \<Rightarrow> callback_data \<Rightarrow> bool" where
  "callback_lt a b = (fst a < fst b \<or> (\<not> fst b < fst a \<and> snd a < snd b))"

subsection \<open>Ordered sets\<close>

text \<open>
  A \<^verbatim>\<open>std::set\<close> with comparison \<open>lt\<close> is the list of its elements in iteration
  order, that is ascending in \<open>lt\<close>. Two keys are equivalent when neither is below the
  other. \<open>set_insert\<close> returns the new set and whether the key was inserted,
  \<open>set_erase\<close> the new set and the number of erased elements.
\<close>

fun set_insert :: "('a \<Rightarrow> 'a \<Rightarrow> bool) \<Rightarrow> 'a \<Rightarrow> 'a list \<Rightarrow> 'a list \<times> bool" where
  "set_insert lt x [] = ([x], True)"
| "set_insert lt x (y # ys) =
     (if lt x y then (x # y # ys, True)
      else if lt y x then (case set_insert lt x ys of (zs, b) \<Rightarrow> (y # zs, b))
      else (y # ys, False))"

fun set_erase :: "('a \<Rightarrow> 'a \<Rightarrow> bool) \<Rightarrow> 'a \<Rightarrow> 'a list \<Rightarrow> 'a list \<times> nat" where
  "set_erase lt x [] = ([], 0)"
| "set_erase lt x (y # ys) =
     (if lt x y then (y # ys, 0)
      else if lt y x then (case set_erase lt x ys of (zs, n) \<Rightarrow> (y # zs, n))
      else (ys, 1))"

fun set_contains :: "('a \<Rightarrow> 'a \<Rightarrow> bool) \<Rightarrow> 'a \<Rightarrow> 'a list \<Rightarrow> bool" where
  "set_contains lt x [] = False"
| "set_contains lt x (y # ys) =
     (if lt x y then False
      else if lt y x then set_contains lt x ys
      else True)"

section \<open>The manager\<close>

text \<open>
  What the manager does to the outside world is recorded in \<open>trace\<close>, in the order of
  the calls: a broadcast handed to \<^verbatim>\<open>SendBroadcast\<close> (the message before
  \<^verbatim>\<open>Assemble\<close>, which is not part of the sources at hand), and a detached thread
  started for a callback with its three arguments.
\<close>

datatype ('ip, 'h) effect =
  SendBroadcast "'h Message"
| CallbackThread nat "('ip, 'h) DiscoveredService" bool nat

text \<open>The members of \<^verbatim>\<open>Manager\<close>, written without the trailing underscore.\<close>

record ('ip, 'h) Manager =
  group_hash :: 'h
  name_hash :: 'h
  registered_services :: "RegisteredService list"
  discovered_services :: "('ip, 'h) DiscoveredService list"
  discover_callbacks :: "callback_data list"
  trace :: "('ip, 'h) effect list"

text \<open>
  The constructor hashes the group and the name and leaves the three sets empty.
  \<^verbatim>\<open>MD5Hash\<close> is not part of the sources at hand and is a parameter.
\<close>

definition Manager_constructor ::
  "(string \<Rightarrow> 'h) \<Rightarrow> string \<Rightarrow> string \<Rightarrow> ('ip, 'h) Manager" where
  "Manager_constructor MD5Hash group_name host_name =
     \<lparr>group_hash = MD5Hash group_name, name_hash = MD5Hash host_name,
      registered_services = [], discovered_services = [], discover_callbacks = [],
      trace = []\<rparr>"

definition SendMessage ::
  "MessageType \<Rightarrow> RegisteredService \<Rightarrow> ('ip, 'h) Manager \<Rightarrow> ('ip, 'h) Manager" where
  "SendMessage type service m =
     m\<lparr>trace := trace m @
         [SendBroadcast \<lparr>GetType = type, GetGroupHash = group_hash m,
            GetNameHash = Manager.name_hash m,
            GetServiceIdentifier = RegisteredService.identifier service,
            GetPort = RegisteredService.port service\<rparr>]\<rparr>"

definition RegisterService ::
  "RegisteredService \<Rightarrow> ('ip, 'h) Manager \<Rightarrow> bool \<times> ('ip, 'h) Manager" where
  "RegisterService service m =
     (case set_insert RegisteredService_lt service (registered_services m) of
        (inserted, actually_inserted) \<Rightarrow>
          (let m' = m\<lparr>registered_services := inserted\<rparr>
           in (actually_inserted,
               if actually_inserted then SendMessage OFFER service m' else m')))"

definition UnregisterService ::
  "RegisteredService \<Rightarrow> ('ip, 'h) Manager \<Rightarrow> bool \<times> ('ip, 'h) Manager" where
  "UnregisterService service m =
     (case set_erase RegisteredService_lt service (registered_services m) of
        (erased, erase_ret) \<Rightarrow>
          (let m' = m\<lparr>registered_services := erased\<rparr>;
               actually_erased = (if erase_ret > 0 then True else False)
           in (actually_erased,
               if actually_erased then SendMessage LEAVING service m' else m')))"

text \<open>The loop of \<^verbatim>\<open>UnregisterServices\<close>, and the function with the final \<^verbatim>\<open>clear\<close>.\<close>

definition UnregisterServices_loop :: "('ip, 'h) Manager \<Rightarrow> ('ip, 'h) Manager" where
  "UnregisterServices_loop m =
     foldl (\<lambda>m' service. SendMessage LEAVING service m') m (registered_services m)"

definition UnregisterServices :: "('ip, 'h) Manager \<Rightarrow> ('ip, 'h) Manager" where
  "UnregisterServices m = (UnregisterServices_loop m)\<lparr>registered_services := []\<rparr>"

definition GetRegisteredServices :: "('ip, 'h) Manager \<Rightarrow> RegisteredService list" where
  "GetRegisteredServices m = registered_services m"

definition RegisterDiscoverCallback ::
  "nat \<Rightarrow> nat \<Rightarrow> ('ip, 'h) Manager \<Rightarrow> bool \<times> ('ip, 'h) Manager" where
  "RegisterDiscoverCallback callback data m =
     (case set_insert callback_lt (callback, data) (discover_callbacks m) of
        (inserted, insert_ret) \<Rightarrow> (insert_ret, m\<lparr>discover_callbacks := inserted\<rparr>))"

definition UnregisterDiscoverCallback ::
  "nat \<Rightarrow> nat \<Rightarrow> ('ip, 'h) Manager \<Rightarrow> bool \<times> ('ip, 'h) Manager" where
  "UnregisterDiscoverCallback callback data m =
     (case set_erase callback_lt (callback, data) (discover_callbacks m) of
        (erased, erase_ret) \<Rightarrow> (erase_ret > 0, m\<lparr>discover_callbacks := erased\<rparr>))"

definition UnregisterDiscoverCallbacks :: "('ip, 'h) Manager \<Rightarrow> ('ip, 'h) Manager" where
  "UnregisterDiscoverCallbacks m = m\<lparr>discover_callbacks := []\<rparr>"

definition GetDiscoveredServices ::
  "('ip, 'h) Manager \<Rightarrow> ('ip, 'h) DiscoveredService list" where
  "GetDiscoveredServices m = discovered_services m"

subsection \<open>The receive loop\<close>

text \<open>The loop of the \<^verbatim>\<open>REQUEST\<close> case over the registered services.\<close>

definition replay_offers ::
  "ServiceIdentifier \<Rightarrow> ('ip, 'h) Manager \<Rightarrow> ('ip, 'h) Manager" where
  "replay_offers service_id m =
     foldl (\<lambda>m' service.
              if RegisteredService.identifier service = service_id
              then SendMessage OFFER service m' else m')
       m (registered_services m)"

text \<open>The loop of the \<^verbatim>\<open>OFFER\<close> and \<^verbatim>\<open>LEAVING\<close> cases over the callbacks.\<close>

definition run_callbacks ::
  "('ip, 'h) DiscoveredService \<Rightarrow> bool \<Rightarrow> ('ip, 'h) Manager \<Rightarrow> ('ip, 'h) Manager" where
  "run_callbacks discovered_service departing m =
     foldl (\<lambda>m' callback_data.
              m'\<lparr>trace := trace m' @
                [CallbackThread (fst callback_data) discovered_service departing
                   (snd callback_data)]\<rparr>)
       m (discover_callbacks m)"

text \<open>
  One pass through the body of the \<^verbatim>\<open>while\<close> loop of \<^verbatim>\<open>Manager::Run\<close>, for the
  datagram \<open>raw_msg\<close> that \<^verbatim>\<open>RecvBroadcast\<close> returned. The constructor of \<^verbatim>\<open>Message\<close>
  from the payload is not part of the sources at hand: it is the parameter \<open>parse\<close>,
  which returns the message or the \<^verbatim>\<open>DecodeError\<close> it throws.
\<close>

definition Run_iteration ::
  "(8 word list \<Rightarrow> DecodeError + 'h Message) \<Rightarrow> 'ip BroadcastMessage \<Rightarrow>
   ('ip, 'h::linorder) Manager \<Rightarrow> ('ip, 'h) Manager" where
  "Run_iteration parse raw_msg m =
     (case parse (content raw_msg) of
        Inl error \<Rightarrow> m
      | Inr chirp_msg \<Rightarrow>
          if GetGroupHash chirp_msg \<noteq> group_hash m then m
          else if GetNameHash chirp_msg \<noteq> Manager.name_hash m then m
          else
            (let discovered_service =
                   \<lparr>address = ip raw_msg, name_hash = GetNameHash chirp_msg,
                    identifier = GetServiceIdentifier chirp_msg, port = GetPort chirp_msg\<rparr>
             in case GetType chirp_msg of
                  REQUEST \<Rightarrow>
                    replay_offers (DiscoveredService.identifier discovered_service) m
                | OFFER \<Rightarrow>
                    if \<not> set_contains DiscoveredService_lt discovered_service
                           (discovered_services m)
                    then run_callbacks discovered_service False
                           (m\<lparr>discovered_services :=
                                fst (set_insert DiscoveredService_lt discovered_service
                                       (discovered_services m))\<rparr>)
                    else m
                | LEAVING \<Rightarrow>
                    if set_contains DiscoveredService_lt discovered_service
                         (discovered_services m)
                    then run_callbacks discovered_service True
                           (m\<lparr>discovered_services :=
                                fst (set_erase DiscoveredService_lt discovered_service
                                       (discovered_services m))\<rparr>)
                    else m))"

text \<open>
  The loop itself, over the datagrams that \<^verbatim>\<open>RecvBroadcast\<close> returns until the stop
  token is seen set at the head of the loop.
\<close>

fun Run ::
  "(8 word list \<Rightarrow> DecodeError + 'h Message) \<Rightarrow> ('ip, 'h::linorder) Manager \<Rightarrow>
   'ip BroadcastMessage list \<Rightarrow> ('ip, 'h) Manager" where
  "Run parse m [] = m"
| "Run parse m (raw_msg # rest) = Run parse (Run_iteration parse raw_msg m) rest"

text \<open>
  The destructor asks the receive thread to stop, joins it and unregisters all
  services. \<open>pending\<close> are the datagrams the receive loop still handles before it sees
  the stop request (none when the thread was never started).
\<close>

definition Manager_destructor ::
  "(8 word list \<Rightarrow> DecodeError + 'h Message) \<Rightarrow> 'ip BroadcastMessage list \<Rightarrow>
   ('ip, 'h::linorder) Manager \<Rightarrow> ('ip, 'h) Manager" where
  "Manager_destructor parse pending m = UnregisterServices (Run parse m pending)"

section \<open>Notions used in the statements\<close>

text \<open>The broadcast that \<open>SendMessage type service\<close> hands to the sender.\<close>

abbreviation broadcast_of ::
  "MessageType \<Rightarrow> ('ip, 'h) Manager \<Rightarrow> RegisteredService \<Rightarrow> ('ip, 'h) effect" where
  "broadcast_of type m service \<equiv>
     SendBroadcast \<lparr>GetType = type, GetGroupHash = group_hash m,
       GetNameHash = Manager.name_hash m,
       GetServiceIdentifier = RegisteredService.identifier service,
       GetPort = RegisteredService.port service\<rparr>"

text \<open>The thread started for the callback entry \<open>c\<close>.\<close>

abbreviation callback_of ::
  "('ip, 'h) DiscoveredService \<Rightarrow> bool \<Rightarrow> callback_data \<Rightarrow> ('ip, 'h) effect" where
  "callback_of discovered_service departing c \<equiv>
     CallbackThread (fst c) discovered_service departing (snd c)"

fun is_LEAVING_broadcast :: "('ip, 'h) effect \<Rightarrow> bool" where
  "is_LEAVING_broadcast (SendBroadcast msg) = (GetType msg = LEAVING)"
| "is_LEAVING_broadcast (CallbackThread fn d departing user) = False"

text \<open>
  A comparison under which a sorted list is a set with equality as equivalence:
  irreflexive, transitive, and total on distinct keys.
\<close>

definition strict_linear :: "('a \<Rightarrow> 'a \<Rightarrow> bool) \<Rightarrow> bool" where
  "strict_linear lt =
     ((\<forall>a. \<not> lt a a) \<and> (\<forall>a b c. lt a b \<longrightarrow> lt b c \<longrightarrow> lt a c)
      \<and> (\<forall>a b. \<not> lt a b \<longrightarrow> \<not> lt b a \<longrightarrow> a = b))"

text \<open>\<open>n\<close> successive calls of \<open>RegisterService\<close> with one service, and what they return.\<close>

fun RegisterService_times ::
  "nat \<Rightarrow> RegisteredService \<Rightarrow> ('ip, 'h) Manager \<Rightarrow> bool list \<times> ('ip, 'h) Manager" where
  "RegisterService_times 0 service m = ([], m)"
| "RegisterService_times (Suc n) service m =
     (case RegisterService service m of
        (r, m') \<Rightarrow>
          (case RegisterService_times n service m' of (rs, m'') \<Rightarrow> (r # rs, m'')))"

subsection \<open>A concrete manager and concrete datagrams\<close>

text \<open>
  A manager of group 7 with the name hash 1, which has registered two services and one
  callback, and has discovered nothing yet.
\<close>

definition example_manager :: "(nat, nat) Manager" where
  "example_manager =
     \<lparr>group_hash = 7, name_hash = 1,
      registered_services =
        [\<lparr>RegisteredService.identifier = 1, port = 7000\<rparr>,
         \<lparr>RegisteredService.identifier = 4, port = 9000\<rparr>],
      discovered_services = [], discover_callbacks = [(100, 0)], trace = []\<rparr>"

text \<open>
  A decoder for the evaluations: five payloads decode to a message, every other payload
  is malformed. Payload 1 is the manager's own \<^verbatim>\<open>OFFER\<close>; payloads 2 and 3 are an
  \<^verbatim>\<open>OFFER\<close> and a \<^verbatim>\<open>REQUEST\<close> of another host (name hash 2) of the same group;
  payload 4 is an \<^verbatim>\<open>OFFER\<close> of a host of group 8; payload 5 is a \<^verbatim>\<open>REQUEST\<close> that
  carries the manager's own name hash.
\<close>

definition example_parse :: "8 word list \<Rightarrow> DecodeError + nat Message" where
  "example_parse bytes =
     (if bytes = [1] then
        Inr \<lparr>GetType = OFFER, GetGroupHash = 7, GetNameHash = 1,
             GetServiceIdentifier = 1, GetPort = 7000\<rparr>
      else if bytes = [2] then
        Inr \<lparr>GetType = OFFER, GetGroupHash = 7, GetNameHash = 2,
             GetServiceIdentifier = 1, GetPort = 7000\<rparr>
      else if bytes = [3] then
        Inr \<lparr>GetType = REQUEST, GetGroupHash = 7, GetNameHash = 2,
             GetServiceIdentifier = 1, GetPort = 0\<rparr>
      else if bytes = [4] then
        Inr \<lparr>GetType = OFFER, GetGroupHash = 8, GetNameHash = 2,
             GetServiceIdentifier = 1, GetPort = 7000\<rparr>
      else if bytes = [5] then
        Inr \<lparr>GetType = REQUEST, GetGroupHash = 7, GetNameHash = 1,
             GetServiceIdentifier = 1, GetPort = 0\<rparr>
      else Inl DecodeError)"

definition example_datagram :: "8 word \<Rightarrow> nat BroadcastMessage" where
  "example_datagram b = \<lparr>ip = 20, content = [b]\<rparr>"

section \<open>The order of discovered services\<close>

lemma RegisteredService_lt_iff:
  "RegisteredService_lt a b =
     (RegisteredService.identifier a < RegisteredService.identifier b \<or>
      (RegisteredService.identifier a = RegisteredService.identifier b \<and>
       RegisteredService.port a < RegisteredService.port b))"
  by (auto simp: RegisteredService_lt_def three_way_def is_lt_def is_gt_def Let_def)

lemma DiscoveredService_lt_iff:
  "DiscoveredService_lt a b =
     (DiscoveredService.name_hash a < DiscoveredService.name_hash b \<or>
      (DiscoveredService.name_hash a = DiscoveredService.name_hash b \<and>
       (DiscoveredService.identifier a < DiscoveredService.identifier b \<or>
        (DiscoveredService.identifier a = DiscoveredService.identifier b \<and>
         DiscoveredService.port a < DiscoveredService.port b))))"
  by (auto simp: DiscoveredService_lt_def three_way_def is_lt_def is_gt_def Let_def)

text \<open>
  Claim C9. \<^verbatim>\<open>DiscoveredService::operator<\<close> is the lexicographic order on the name
  hash, then the identifier's tag, then the port. The address plays no part: changing
  the addresses of both sides does not change the result, and two values that differ
  only in the address are equivalent (neither is below the other).
\<close>

theorem DiscoveredService_lt_ignores_address:
  "DiscoveredService_lt a b =
     (DiscoveredService.name_hash a < DiscoveredService.name_hash b \<or>
      (DiscoveredService.name_hash a = DiscoveredService.name_hash b \<and>
       (DiscoveredService.identifier a < DiscoveredService.identifier b \<or>
        (DiscoveredService.identifier a = DiscoveredService.identifier b \<and>
         DiscoveredService.port a < DiscoveredService.port b))))
   \<and> DiscoveredService_lt (a\<lparr>address := x\<rparr>) (b\<lparr>address := y\<rparr>) = DiscoveredService_lt a b
   \<and> \<not> DiscoveredService_lt a (a\<lparr>address := x\<rparr>)
   \<and> \<not> DiscoveredService_lt (a\<lparr>address := x\<rparr>) a"
  by (simp add: DiscoveredService_lt_iff)

section \<open>Sorted lists as sets\<close>

lemma strict_linearD:
  assumes "strict_linear lt"
  shows "\<not> lt a a" and "lt a b \<Longrightarrow> lt b c \<Longrightarrow> lt a c"
    and "\<not> lt a b \<Longrightarrow> \<not> lt b a \<Longrightarrow> a = b"
  using assms unfolding strict_linear_def by blast+

lemma sorted_wrt_distinct:
  assumes "strict_linear lt" "sorted_wrt lt xs"
  shows "distinct xs"
  using assms(2) strict_linearD(1) [OF assms(1)] by (induction xs) auto

lemma set_contains_iff:
  assumes "strict_linear lt" "sorted_wrt lt xs"
  shows "set_contains lt x xs = (x \<in> set xs)"
  using assms(2)
proof (induction xs)
  case Nil
  then show ?case by simp
next
  case (Cons y ys)
  note sl = strict_linearD [OF assms(1)]
  show ?case
  proof (cases "lt x y")
    case True
    then have "x \<noteq> y" using sl(1) by blast
    moreover have "x \<notin> set ys"
      using True Cons.prems sl(1,2) by (metis sorted_wrt.simps(2))
    ultimately show ?thesis using True by simp
  next
    case False
    then show ?thesis using Cons sl(1,3) by (cases "lt y x") auto
  qed
qed

lemma set_insert_present:
  assumes "strict_linear lt" "sorted_wrt lt xs" "x \<in> set xs"
  shows "set_insert lt x xs = (xs, False)"
  using assms(2,3)
proof (induction xs)
  case Nil
  then show ?case by simp
next
  case (Cons y ys)
  note sl = strict_linearD [OF assms(1)]
  show ?case
  proof (cases "x = y")
    case True
    then show ?thesis using sl(1) by simp
  next
    case False
    then have "x \<in> set ys" using Cons.prems by simp
    then have "lt y x" using Cons.prems by simp
    then have "\<not> lt x y" using sl(1,2) by blast
    then show ?thesis using \<open>lt y x\<close> \<open>x \<in> set ys\<close> Cons by simp
  qed
qed

lemma set_insert_absent:
  assumes "strict_linear lt" "sorted_wrt lt xs" "x \<notin> set xs"
  shows "snd (set_insert lt x xs) = True
       \<and> set (fst (set_insert lt x xs)) = insert x (set xs)
       \<and> length (fst (set_insert lt x xs)) = Suc (length xs)
       \<and> sorted_wrt lt (fst (set_insert lt x xs))"
  using assms(2,3)
proof (induction xs)
  case Nil
  then show ?case by simp
next
  case (Cons y ys)
  note sl = strict_linearD [OF assms(1)]
  show ?case
  proof (cases "lt x y")
    case True
    then have "\<forall>z\<in>set ys. lt x z" using Cons.prems sl(2) by auto
    then show ?thesis using True Cons.prems by auto
  next
    case False
    then have yx: "lt y x" using Cons.prems sl(3) by auto
    have IH: "snd (set_insert lt x ys) = True
       \<and> set (fst (set_insert lt x ys)) = insert x (set ys)
       \<and> length (fst (set_insert lt x ys)) = Suc (length ys)
       \<and> sorted_wrt lt (fst (set_insert lt x ys))"
      using Cons by simp
    show ?thesis using False yx IH Cons.prems by (auto split: prod.splits)
  qed
qed

lemma set_erase_absent:
  assumes "strict_linear lt" "sorted_wrt lt xs" "x \<notin> set xs"
  shows "set_erase lt x xs = (xs, 0)"
  using assms(2,3)
proof (induction xs)
  case Nil
  then show ?case by simp
next
  case (Cons y ys)
  note sl = strict_linearD [OF assms(1)]
  show ?case
  proof (cases "lt x y")
    case True
    then show ?thesis by simp
  next
    case False
    then have yx: "lt y x" using Cons.prems sl(3) by auto
    then show ?thesis using False Cons by simp
  qed
qed

lemma set_erase_present:
  assumes "strict_linear lt" "sorted_wrt lt xs" "x \<in> set xs"
  shows "snd (set_erase lt x xs) = 1
       \<and> set (fst (set_erase lt x xs)) = set xs - {x}
       \<and> Suc (length (fst (set_erase lt x xs))) = length xs
       \<and> sorted_wrt lt (fst (set_erase lt x xs))"
  using assms(2,3)
proof (induction xs)
  case Nil
  then show ?case by simp
next
  case (Cons y ys)
  note sl = strict_linearD [OF assms(1)]
  have d: "distinct (y # ys)" using sorted_wrt_distinct [OF assms(1) Cons.prems(1)] .
  show ?case
  proof (cases "x = y")
    case True
    then show ?thesis using sl(1) Cons.prems d by auto
  next
    case False
    then have xin: "x \<in> set ys" using Cons.prems by simp
    then have yx: "lt y x" using Cons.prems by simp
    then have nxy: "\<not> lt x y" using sl(1,2) by blast
    have IH: "snd (set_erase lt x ys) = 1
       \<and> set (fst (set_erase lt x ys)) = set ys - {x}
       \<and> Suc (length (fst (set_erase lt x ys))) = length ys
       \<and> sorted_wrt lt (fst (set_erase lt x ys))"
      using Cons xin by simp
    show ?thesis using False yx nxy IH Cons.prems by (auto split: prod.splits)
  qed
qed

lemma RegisteredService_lt_strict_linear: "strict_linear RegisteredService_lt"
  unfolding strict_linear_def by (auto simp: RegisteredService_lt_iff)

section \<open>What the loops of the manager add to the trace\<close>

lemma SendMessage_eq:
  "SendMessage type service m = m\<lparr>trace := trace m @ [broadcast_of type m service]\<rparr>"
  by (simp add: SendMessage_def)

lemma foldl_SendMessage:
  "foldl (\<lambda>m' service. if P service then SendMessage type service m' else m') m xs =
     m\<lparr>trace := trace m @ map (broadcast_of type m) (filter P xs)\<rparr>"
  by (induction xs arbitrary: m) (simp_all add: SendMessage_eq)

lemma replay_offers_eq:
  "replay_offers service_id m =
     m\<lparr>trace := trace m @ map (broadcast_of OFFER m)
         (filter (\<lambda>service. RegisteredService.identifier service = service_id)
            (registered_services m))\<rparr>"
  by (simp add: replay_offers_def foldl_SendMessage)

lemma UnregisterServices_loop_eq:
  "UnregisterServices_loop m =
     m\<lparr>trace := trace m @ map (broadcast_of LEAVING m) (registered_services m)\<rparr>"
  using foldl_SendMessage [of "\<lambda>_. True" LEAVING m "registered_services m"]
  by (simp add: UnregisterServices_loop_def)

lemma foldl_CallbackThread:
  "foldl (\<lambda>m' callback_data.
            m'\<lparr>trace := trace m' @
              [CallbackThread (fst callback_data) d departing (snd callback_data)]\<rparr>) m cs =
     m\<lparr>trace := trace m @ map (callback_of d departing) cs\<rparr>"
  by (induction cs arbitrary: m) simp_all

lemma run_callbacks_eq:
  "run_callbacks d departing m =
     m\<lparr>trace := trace m @ map (callback_of d departing) (discover_callbacks m)\<rparr>"
  by (simp add: run_callbacks_def foldl_CallbackThread)

section \<open>The receive loop\<close>

text \<open>
  Claim C7. A datagram that decodes to a message of another group is dropped: the
  pass through the loop body returns the manager as it was, so neither set and no
  callback entry has changed and the trace has no new broadcast and no new callback
  thread.
\<close>

theorem Run_iteration_other_group:
  assumes "parse (content raw_msg) = Inr chirp_msg"
    and "GetGroupHash chirp_msg \<noteq> group_hash m"
  shows "Run_iteration parse raw_msg m = m"
  using assms by (simp add: Run_iteration_def)

theorem Run_iteration_other_group_witness:
  "example_parse (content (example_datagram 4)) =
     Inr \<lparr>GetType = OFFER, GetGroupHash = 8, GetNameHash = 2,
          GetServiceIdentifier = 1, GetPort = 7000\<rparr>
   \<and> GetGroupHash \<lparr>GetType = OFFER, GetGroupHash = 8, GetNameHash = 2,
          GetServiceIdentifier = 1, GetPort = 7000\<rparr> \<noteq> group_hash example_manager
   \<and> Run_iteration example_parse (example_datagram 4) example_manager = example_manager"
proof -
  let ?msg = "\<lparr>GetType = OFFER, GetGroupHash = 8::nat, GetNameHash = 2::nat,
          GetServiceIdentifier = 1, GetPort = 7000\<rparr>"
  have p: "example_parse (content (example_datagram 4)) = Inr ?msg"
    by (simp add: example_parse_def example_datagram_def)
  have g: "GetGroupHash ?msg \<noteq> group_hash example_manager"
    by (simp add: example_manager_def)
  from Run_iteration_other_group
         [where parse = example_parse and raw_msg = "example_datagram 4"
            and chirp_msg = ?msg and m = example_manager] p g
  show ?thesis by blast
qed

text \<open>
  Claim C8. When the payload does not decode, the \<^verbatim>\<open>DecodeError\<close> is caught: the pass
  through the loop body leaves the whole manager as it was (registered set, discovered
  set, callback registry, trace), and the loop goes on with the datagrams that follow.
\<close>

theorem Run_DecodeError_continues:
  assumes "parse (content raw_msg) = Inl error"
  shows "Run_iteration parse raw_msg m = m
       \<and> Run parse m (raw_msg # rest) = Run parse m rest"
  using assms by (simp add: Run_iteration_def)

theorem Run_DecodeError_continues_witness:
  "example_parse (content (example_datagram 9)) = Inl DecodeError
   \<and> Run_iteration example_parse (example_datagram 9) example_manager = example_manager
   \<and> Run example_parse example_manager [example_datagram 9, example_datagram 5] =
       Run example_parse example_manager [example_datagram 5]"
proof -
  have p: "example_parse (content (example_datagram 9)) = Inl DecodeError"
    by (simp add: example_parse_def example_datagram_def)
  from Run_DecodeError_continues
         [where parse = example_parse and raw_msg = "example_datagram 9"
            and error = DecodeError and m = example_manager
            and rest = "[example_datagram 5]"] p
  show ?thesis by blast
qed

text \<open>
  Claim C10. A pass through the loop body for a datagram that decodes to a
  \<^verbatim>\<open>REQUEST\<close> leaves the registered set, the discovered set, the callback registry
  and the two hashes as they were. The trace either is unchanged or has grown by the
  \<^verbatim>\<open>OFFER\<close> broadcasts of the registered services with the requested identifier.
\<close>

theorem Run_iteration_REQUEST_frame:
  assumes "parse (content raw_msg) = Inr chirp_msg"
    and "GetType chirp_msg = REQUEST"
  shows "registered_services (Run_iteration parse raw_msg m) = registered_services m
       \<and> discovered_services (Run_iteration parse raw_msg m) = discovered_services m
       \<and> discover_callbacks (Run_iteration parse raw_msg m) = discover_callbacks m
       \<and> group_hash (Run_iteration parse raw_msg m) = group_hash m
       \<and> Manager.name_hash (Run_iteration parse raw_msg m) = Manager.name_hash m
       \<and> (trace (Run_iteration parse raw_msg m) = trace m
          \<or> trace (Run_iteration parse raw_msg m) =
              trace m @ map (broadcast_of OFFER m)
                (filter (\<lambda>service. RegisteredService.identifier service =
                                      GetServiceIdentifier chirp_msg)
                   (registered_services m)))"
  using assms by (simp add: Run_iteration_def replay_offers_eq)

theorem Run_iteration_REQUEST_frame_witness:
  "example_parse (content (example_datagram 5)) =
     Inr \<lparr>GetType = REQUEST, GetGroupHash = 7, GetNameHash = 1,
          GetServiceIdentifier = 1, GetPort = 0\<rparr>
   \<and> GetType \<lparr>GetType = REQUEST, GetGroupHash = 7::nat, GetNameHash = 1::nat,
          GetServiceIdentifier = 1, GetPort = 0\<rparr> = REQUEST
   \<and> registered_services (Run_iteration example_parse (example_datagram 5) example_manager) =
       registered_services example_manager
   \<and> discovered_services (Run_iteration example_parse (example_datagram 5) example_manager) =
       discovered_services example_manager
   \<and> discover_callbacks (Run_iteration example_parse (example_datagram 5) example_manager) =
       discover_callbacks example_manager
   \<and> (trace (Run_iteration example_parse (example_datagram 5) example_manager) =
         trace example_manager
       \<or> trace (Run_iteration example_parse (example_datagram 5) example_manager) =
           trace example_manager @
           [broadcast_of OFFER example_manager
              \<lparr>RegisteredService.identifier = 1, port = 7000\<rparr>])"
proof -
  let ?msg = "\<lparr>GetType = REQUEST, GetGroupHash = 7::nat, GetNameHash = 1::nat,
          GetServiceIdentifier = 1, GetPort = 0\<rparr>"
  let ?after = "Run_iteration example_parse (example_datagram 5) example_manager"
  have p: "example_parse (content (example_datagram 5)) = Inr ?msg"
    by (simp add: example_parse_def example_datagram_def)
  have t: "GetType ?msg = REQUEST"
    by simp
  have l: "filter (\<lambda>service. RegisteredService.identifier service = GetServiceIdentifier ?msg)
             (registered_services example_manager) =
           [\<lparr>RegisteredService.identifier = 1, port = 7000\<rparr>]"
    by (simp add: example_manager_def)
  note frame = Run_iteration_REQUEST_frame
         [where parse = example_parse and raw_msg = "example_datagram 5"
            and chirp_msg = ?msg and m = example_manager, OF p t]
  have c1: "registered_services ?after = registered_services example_manager"
    and c2: "discovered_services ?after = discovered_services example_manager"
    and c3: "discover_callbacks ?after = discover_callbacks example_manager"
    using frame by blast+
  have c4: "trace ?after = trace example_manager
     \<or> trace ?after = trace example_manager @
          map (broadcast_of OFFER example_manager)
            (filter (\<lambda>service. RegisteredService.identifier service =
                                  GetServiceIdentifier ?msg)
               (registered_services example_manager))"
    using frame by blast
  have c5: "trace ?after = trace example_manager
     \<or> trace ?after = trace example_manager @
          [broadcast_of OFFER example_manager
             \<lparr>RegisteredService.identifier = 1, port = 7000\<rparr>]"
    using c4 unfolding l by simp
  show ?thesis using p t c1 c2 c3 c5 by blast
qed

text \<open>
  The second check of the loop body lets a message through only when it carries the
  manager's own name hash: a message of any other host is dropped, whatever its type.
\<close>

lemma Run_iteration_other_name:
  assumes "parse (content raw_msg) = Inr chirp_msg"
    and "GetNameHash chirp_msg \<noteq> Manager.name_hash m"
  shows "Run_iteration parse raw_msg m = m"
  using assms by (simp add: Run_iteration_def)

text \<open>
  What the \<^verbatim>\<open>OFFER\<close> and \<^verbatim>\<open>LEAVING\<close> cases do with a message that has passed both
  checks, that is, one with the manager's own group hash and name hash.
\<close>

lemma Run_iteration_own_name_OFFER:
  assumes "parse (content raw_msg) = Inr chirp_msg"
    and "GetGroupHash chirp_msg = group_hash m"
    and "GetNameHash chirp_msg = Manager.name_hash m"
    and "GetType chirp_msg = OFFER"
    and "d = \<lparr>address = ip raw_msg, name_hash = GetNameHash chirp_msg,
              identifier = GetServiceIdentifier chirp_msg, port = GetPort chirp_msg\<rparr>"
  shows "Run_iteration parse raw_msg m =
     (if set_contains DiscoveredService_lt d (discovered_services m) then m
      else m\<lparr>discovered_services :=
               fst (set_insert DiscoveredService_lt d (discovered_services m)),
             trace := trace m @ map (callback_of d False) (discover_callbacks m)\<rparr>)"
  using assms by (simp add: Run_iteration_def run_callbacks_eq Let_def)

lemma Run_iteration_own_name_LEAVING:
  assumes "parse (content raw_msg) = Inr chirp_msg"
    and "GetGroupHash chirp_msg = group_hash m"
    and "GetNameHash chirp_msg = Manager.name_hash m"
    and "GetType chirp_msg = LEAVING"
    and "d = \<lparr>address = ip raw_msg, name_hash = GetNameHash chirp_msg,
              identifier = GetServiceIdentifier chirp_msg, port = GetPort chirp_msg\<rparr>"
  shows "Run_iteration parse raw_msg m =
     (if set_contains DiscoveredService_lt d (discovered_services m)
      then m\<lparr>discovered_services :=
               fst (set_erase DiscoveredService_lt d (discovered_services m)),
             trace := trace m @ map (callback_of d True) (discover_callbacks m)\<rparr>
      else m)"
  using assms by (simp add: Run_iteration_def run_callbacks_eq Let_def)

lemma Run_iteration_own_name_REQUEST:
  assumes "parse (content raw_msg) = Inr chirp_msg"
    and "GetGroupHash chirp_msg = group_hash m"
    and "GetNameHash chirp_msg = Manager.name_hash m"
    and "GetType chirp_msg = REQUEST"
  shows "Run_iteration parse raw_msg m =
     m\<lparr>trace := trace m @ map (broadcast_of OFFER m)
         (filter (\<lambda>service. RegisteredService.identifier service =
                               GetServiceIdentifier chirp_msg)
            (registered_services m))\<rparr>"
  using assms by (simp add: Run_iteration_def replay_offers_eq Let_def)

lemma set_contains_set_insert:
  assumes "\<And>a. \<not> lt a a"
  shows "set_contains lt x (fst (set_insert lt x xs))"
  using assms by (induction xs) (auto split: prod.splits)

text \<open>
  Claim C1 fails on the code. The manager's own \<^verbatim>\<open>OFFER\<close> (payload 1: the group hash 7
  and the name hash 1 of the manager itself) is not dropped: the manager stores itself
  in the discovered set and starts the callback with \<open>departing = False\<close>.
\<close>

theorem Run_iteration_own_OFFER_is_stored:
  "Run_iteration example_parse (example_datagram 1) example_manager =
     example_manager
       \<lparr>discovered_services :=
          [\<lparr>address = 20, name_hash = 1, identifier = 1, port = 7000\<rparr>],
        trace :=
          [CallbackThread 100
             \<lparr>address = 20, name_hash = 1, identifier = 1, port = 7000\<rparr> False 0]\<rparr>"
  by (simp add: Run_iteration_def example_parse_def example_datagram_def
      example_manager_def run_callbacks_def DiscoveredService_lt_def Let_def)

text \<open>
  Claim C2 fails on the code. The \<^verbatim>\<open>OFFER\<close> of another host of the same group
  (payload 2: group hash 7, name hash 2) is dropped, although the discovered set is
  empty: the service is not inserted and no callback is started.
\<close>

theorem Run_iteration_remote_OFFER_is_dropped:
  "Run_iteration example_parse (example_datagram 2) example_manager = example_manager
   \<and> discovered_services (Run_iteration example_parse (example_datagram 2) example_manager) = []
   \<and> trace (Run_iteration example_parse (example_datagram 2) example_manager) = []"
  by (simp add: Run_iteration_def example_parse_def example_datagram_def
      example_manager_def)

text \<open>
  Claim C6 fails on the code. The \<^verbatim>\<open>REQUEST\<close> of another host of the same group for
  the identifier 1 (payload 3) is dropped, although a service with the identifier 1 is
  registered: no \<^verbatim>\<open>OFFER\<close> is broadcast.
\<close>

theorem Run_iteration_remote_REQUEST_is_dropped:
  "\<lparr>RegisteredService.identifier = 1, port = 7000\<rparr>
     \<in> set (registered_services example_manager)
   \<and> Run_iteration example_parse (example_datagram 3) example_manager = example_manager
   \<and> trace (Run_iteration example_parse (example_datagram 3) example_manager) = []"
  by (simp add: Run_iteration_def example_parse_def example_datagram_def
      example_manager_def)

section \<open>Registering and unregistering services\<close>

text \<open>
  The registered set is a \<^verbatim>\<open>std::set\<close>: its list of elements is ascending in
  \<open>RegisteredService_lt\<close>. The theorems of this section and the next one assume it of
  the manager they start from.
\<close>

lemma RegisterService_absent:
  assumes "sorted_wrt RegisteredService_lt (registered_services m)"
    and "service \<notin> set (registered_services m)"
  shows "RegisterService service m =
     (True, m\<lparr>registered_services :=
                 fst (set_insert RegisteredService_lt service (registered_services m)),
               trace := trace m @ [broadcast_of OFFER m service]\<rparr>)"
  using set_insert_absent [OF RegisteredService_lt_strict_linear assms]
  by (simp add: RegisterService_def SendMessage_eq case_prod_beta Let_def)

lemma RegisterService_present:
  assumes "sorted_wrt RegisteredService_lt (registered_services m)"
    and "service \<in> set (registered_services m)"
  shows "RegisterService service m = (False, m)"
  using set_insert_present [OF RegisteredService_lt_strict_linear assms]
  by (simp add: RegisterService_def Let_def)

lemma RegisterService_times_present:
  assumes "sorted_wrt RegisteredService_lt (registered_services m)"
    and "service \<in> set (registered_services m)"
  shows "RegisterService_times n service m = (replicate n False, m)"
  by (induction n) (simp_all add: RegisterService_present [OF assms])

text \<open>
  The assumption holds of every manager that the operations produce from a new one.
\<close>

lemma Manager_constructor_sorted:
  "sorted_wrt RegisteredService_lt (registered_services (Manager_constructor MD5Hash group_name host_name))"
  by (simp add: Manager_constructor_def)

lemma RegisterService_sorted:
  assumes "sorted_wrt RegisteredService_lt (registered_services m)"
  shows "sorted_wrt RegisteredService_lt (registered_services (snd (RegisterService service m)))"
proof (cases "service \<in> set (registered_services m)")
  case True
  then show ?thesis using assms by (simp add: RegisterService_present)
next
  case False
  then show ?thesis
    using set_insert_absent [OF RegisteredService_lt_strict_linear assms False]
    by (simp add: RegisterService_absent [OF assms False])
qed

lemma UnregisterService_sorted:
  assumes "sorted_wrt RegisteredService_lt (registered_services m)"
  shows "sorted_wrt RegisteredService_lt
           (registered_services (snd (UnregisterService service m)))"
proof (cases "service \<in> set (registered_services m)")
  case True
  then show ?thesis
    using set_erase_present [OF RegisteredService_lt_strict_linear assms True]
    by (simp add: UnregisterService_def SendMessage_eq case_prod_beta Let_def)
next
  case False
  then show ?thesis
    using set_erase_absent [OF RegisteredService_lt_strict_linear assms False] assms
    by (simp add: UnregisterService_def Let_def)
qed

lemma UnregisterServices_sorted:
  "sorted_wrt RegisteredService_lt (registered_services (UnregisterServices m))"
  by (simp add: UnregisterServices_def)

text \<open>
  Claim C4. Let a service be not yet registered. Of \<open>N \<ge> 1\<close> successive calls of
  \<open>RegisterService\<close> with it, the first returns true and all later ones return false;
  the calls together add exactly one broadcast to the trace, the \<^verbatim>\<open>OFFER\<close> of the
  service, and no later call changes the manager that the first call left. The
  service is in the registered set afterwards, which has grown by one element.
\<close>

theorem RegisterService_times_once:
  assumes "0 < N"
    and "sorted_wrt RegisteredService_lt (registered_services m)"
    and "service \<notin> set (registered_services m)"
  shows "fst (RegisterService_times N service m) = True # replicate (N - 1) False
       \<and> snd (RegisterService_times N service m) = snd (RegisterService service m)
       \<and> trace (snd (RegisterService_times N service m)) =
           trace m @ [broadcast_of OFFER m service]
       \<and> set (registered_services (snd (RegisterService_times N service m))) =
           insert service (set (registered_services m))
       \<and> length (registered_services (snd (RegisterService_times N service m))) =
           Suc (length (registered_services m))
       \<and> sorted_wrt RegisteredService_lt
           (registered_services (snd (RegisterService_times N service m)))"
proof -
  obtain n where N: "N = Suc n" using assms(1) by (cases N) auto
  let ?m1 = "m\<lparr>registered_services :=
                 fst (set_insert RegisteredService_lt service (registered_services m)),
               trace := trace m @ [broadcast_of OFFER m service]\<rparr>"
  note ins = set_insert_absent [OF RegisteredService_lt_strict_linear assms(2,3)]
  have first: "RegisterService service m = (True, ?m1)"
    by (rule RegisterService_absent [OF assms(2,3)])
  have s1: "sorted_wrt RegisteredService_lt (registered_services ?m1)"
    using ins by simp
  have in1: "service \<in> set (registered_services ?m1)"
    using ins by simp
  have rest: "RegisterService_times n service ?m1 = (replicate n False, ?m1)"
    by (rule RegisterService_times_present [OF s1 in1])
  have "RegisterService_times N service m = (True # replicate n False, ?m1)"
    by (simp add: N first rest)
  then show ?thesis using ins first by (simp add: N)
qed

theorem RegisterService_times_once_witness:
  "(0::nat) < 3
   \<and> sorted_wrt RegisteredService_lt (registered_services example_manager)
   \<and> \<lparr>RegisteredService.identifier = 2, port = 8000\<rparr>
        \<notin> set (registered_services example_manager)
   \<and> fst (RegisterService_times 3 \<lparr>RegisteredService.identifier = 2, port = 8000\<rparr>
            example_manager) = [True, False, False]
   \<and> trace (snd (RegisterService_times 3 \<lparr>RegisteredService.identifier = 2, port = 8000\<rparr>
                   example_manager)) =
       [broadcast_of OFFER example_manager \<lparr>RegisteredService.identifier = 2, port = 8000\<rparr>]"
proof -
  let ?s = "\<lparr>RegisteredService.identifier = 2, port = 8000\<rparr>"
  have n: "(0::nat) < 3" by simp
  have w: "sorted_wrt RegisteredService_lt (registered_services example_manager)"
    by (simp add: example_manager_def RegisteredService_lt_iff)
  have a: "?s \<notin> set (registered_services example_manager)"
    by (simp add: example_manager_def)
  have e: "trace example_manager = []"
    by (simp add: example_manager_def)
  have r: "True # replicate (3 - 1) False = [True, False, False]"
    by (simp add: numeral_2_eq_2)
  note once = RegisterService_times_once [OF n w a]
  have c1: "fst (RegisterService_times 3 ?s example_manager) =
      True # replicate (3 - 1) False"
    using once by blast
  have c2: "trace (snd (RegisterService_times 3 ?s example_manager)) =
      trace example_manager @ [broadcast_of OFFER example_manager ?s]"
    using once by blast
  show ?thesis using n w a c1 c2 e r by simp
qed

text \<open>
  Claim C5. \<open>UnregisterService\<close> returns true exactly when the service was
  registered, which is exactly when the registered set has changed; the service is not
  in the set afterwards; the trace grows by the \<^verbatim>\<open>LEAVING\<close> of the service when it
  was removed and is unchanged otherwise. \<open>UnregisterServices\<close> empties the set and
  adds one \<^verbatim>\<open>LEAVING\<close> for each registered service, in the order of the set (the
  ascending order of the list).
\<close>

theorem UnregisterService_iff_removed:
  assumes "sorted_wrt RegisteredService_lt (registered_services m)"
  shows "fst (UnregisterService service m) = (service \<in> set (registered_services m))
       \<and> fst (UnregisterService service m) =
           (registered_services (snd (UnregisterService service m)) \<noteq>
            registered_services m)
       \<and> set (registered_services (snd (UnregisterService service m))) =
           set (registered_services m) - {service}
       \<and> trace (snd (UnregisterService service m)) =
           (if fst (UnregisterService service m)
            then trace m @ [broadcast_of LEAVING m service] else trace m)
       \<and> registered_services (UnregisterServices m) = []
       \<and> trace (UnregisterServices m) =
           trace m @ map (broadcast_of LEAVING m) (registered_services m)"
proof (cases "service \<in> set (registered_services m)")
  case True
  note er = set_erase_present [OF RegisteredService_lt_strict_linear assms True]
  have ne: "fst (set_erase RegisteredService_lt service (registered_services m)) \<noteq>
      registered_services m"
    using er by (metis n_not_Suc_n)
  show ?thesis using True er ne
    by (simp add: UnregisterService_def UnregisterServices_def UnregisterServices_loop_eq
        SendMessage_eq case_prod_beta Let_def)
next
  case False
  note er = set_erase_absent [OF RegisteredService_lt_strict_linear assms False]
  show ?thesis using False er
    by (simp add: UnregisterService_def UnregisterServices_def UnregisterServices_loop_eq
        SendMessage_eq Let_def)
qed

theorem UnregisterService_iff_removed_witness:
  "sorted_wrt RegisteredService_lt (registered_services example_manager)
   \<and> fst (UnregisterService \<lparr>RegisteredService.identifier = 1, port = 7000\<rparr>
            example_manager) = True
   \<and> trace (snd (UnregisterService \<lparr>RegisteredService.identifier = 1, port = 7000\<rparr>
                   example_manager)) =
       [broadcast_of LEAVING example_manager \<lparr>RegisteredService.identifier = 1, port = 7000\<rparr>]
   \<and> registered_services (UnregisterServices example_manager) = []
   \<and> trace (UnregisterServices example_manager) =
       [broadcast_of LEAVING example_manager \<lparr>RegisteredService.identifier = 1, port = 7000\<rparr>,
        broadcast_of LEAVING example_manager \<lparr>RegisteredService.identifier = 4, port = 9000\<rparr>]"
proof -
  let ?s = "\<lparr>RegisteredService.identifier = 1, port = 7000\<rparr>"
  have w: "sorted_wrt RegisteredService_lt (registered_services example_manager)"
    by (simp add: example_manager_def RegisteredService_lt_iff)
  have a: "?s \<in> set (registered_services example_manager)"
    by (simp add: example_manager_def)
  have e: "trace example_manager = []"
    by (simp add: example_manager_def)
  have l: "registered_services example_manager =
      [?s, \<lparr>RegisteredService.identifier = 4, port = 9000\<rparr>]"
    by (simp add: example_manager_def)
  note unreg = UnregisterService_iff_removed [OF w, of ?s]
  have c1: "fst (UnregisterService ?s example_manager) =
      (?s \<in> set (registered_services example_manager))"
    using unreg by blast
  have c2: "trace (snd (UnregisterService ?s example_manager)) =
      (if fst (UnregisterService ?s example_manager)
       then trace example_manager @ [broadcast_of LEAVING example_manager ?s]
       else trace example_manager)"
    using unreg by blast
  have c3: "registered_services (UnregisterServices example_manager) = []"
    using unreg by blast
  have c4: "trace (UnregisterServices example_manager) =
      trace example_manager @
      map (broadcast_of LEAVING example_manager) (registered_services example_manager)"
    using unreg by blast
  have c5: "fst (UnregisterService ?s example_manager) = True"
    using c1 a by simp
  show ?thesis using w c2 c3 c4 c5 e l by simp
qed

section \<open>Destruction\<close>

text \<open>
  The receive loop never touches the registered set or the hashes, and whatever it adds
  to the trace is no \<^verbatim>\<open>LEAVING\<close> broadcast.
\<close>

lemma Run_iteration_trace:
  "registered_services (Run_iteration parse raw_msg m) = registered_services m
   \<and> group_hash (Run_iteration parse raw_msg m) = group_hash m
   \<and> Manager.name_hash (Run_iteration parse raw_msg m) = Manager.name_hash m
   \<and> discover_callbacks (Run_iteration parse raw_msg m) = discover_callbacks m
   \<and> (\<exists>new. trace (Run_iteration parse raw_msg m) = trace m @ new
         \<and> filter is_LEAVING_broadcast new = [])"
  by (simp add: Run_iteration_def replay_offers_eq run_callbacks_eq Let_def
      filter_empty_conv split: sum.splits MessageType.splits)

lemma Run_trace:
  "registered_services (Run parse m pending) = registered_services m
   \<and> group_hash (Run parse m pending) = group_hash m
   \<and> Manager.name_hash (Run parse m pending) = Manager.name_hash m
   \<and> discover_callbacks (Run parse m pending) = discover_callbacks m
   \<and> (\<exists>new. trace (Run parse m pending) = trace m @ new
         \<and> filter is_LEAVING_broadcast new = [])"
proof (induction pending arbitrary: m)
  case Nil
  then show ?case by simp
next
  case (Cons raw_msg rest)
  let ?m1 = "Run_iteration parse raw_msg m"
  obtain new1 where n1: "trace ?m1 = trace m @ new1" "filter is_LEAVING_broadcast new1 = []"
    using Run_iteration_trace [of parse raw_msg m] by blast
  obtain new2 where n2: "trace (Run parse ?m1 rest) = trace ?m1 @ new2"
      "filter is_LEAVING_broadcast new2 = []"
    using Cons.IH [of ?m1] by blast
  have "trace (Run parse m (raw_msg # rest)) = trace m @ (new1 @ new2)"
    using n1 n2 by simp
  moreover have "filter is_LEAVING_broadcast (new1 @ new2) = []"
    using n1 n2 by simp
  ultimately have "\<exists>new. trace (Run parse m (raw_msg # rest)) = trace m @ new
         \<and> filter is_LEAVING_broadcast new = []"
    by blast
  then show ?case
    using Cons.IH [of ?m1] Run_iteration_trace [of parse raw_msg m] by simp
qed

lemma broadcast_of_inj: "inj (broadcast_of type m)"
  by (rule injI) simp

lemma count_list_broadcast_of:
  assumes "distinct xs" "s \<in> set xs"
  shows "count_list (map (broadcast_of type m) xs) (broadcast_of type m s) = 1"
proof -
  have "count_list (map (broadcast_of type m) xs) (broadcast_of type m s) = count_list xs s"
    by (rule count_list_map_conv [OF broadcast_of_inj])
  also have "\<dots> = 1"
    using assms by (induction xs) auto
  finally show ?thesis .
qed

text \<open>
  Claim C3. When the destructor has joined the receive thread, the registered set is
  the one the destruction started from. The loop of \<open>UnregisterServices\<close> then adds
  one \<^verbatim>\<open>LEAVING\<close> for each of its services, in the order of the set, and leaves the set
  as it is; only then the set is cleared. So the \<^verbatim>\<open>LEAVING\<close> broadcasts of the whole
  destruction are those of the registered services, and each registered service has
  exactly one.
\<close>

theorem Manager_destructor_emits_LEAVING:
  assumes "sorted_wrt RegisteredService_lt (registered_services m)"
  shows "registered_services (Run parse m pending) = registered_services m
       \<and> trace (UnregisterServices_loop (Run parse m pending)) =
           trace (Run parse m pending) @
           map (broadcast_of LEAVING m) (registered_services m)
       \<and> registered_services (UnregisterServices_loop (Run parse m pending)) =
           registered_services m
       \<and> Manager_destructor parse pending m =
           (UnregisterServices_loop (Run parse m pending))\<lparr>registered_services := []\<rparr>
       \<and> filter is_LEAVING_broadcast
           (drop (length (trace m)) (trace (Manager_destructor parse pending m))) =
           map (broadcast_of LEAVING m) (registered_services m)
       \<and> (\<forall>service \<in> set (registered_services m).
            count_list (drop (length (trace m)) (trace (Manager_destructor parse pending m)))
              (broadcast_of LEAVING m service) = 1)"
proof -
  let ?m1 = "Run parse m pending"
  let ?leavings = "map (broadcast_of LEAVING m) (registered_services m)"
  note run = Run_trace [of parse m pending]
  obtain new where new: "trace ?m1 = trace m @ new" "filter is_LEAVING_broadcast new = []"
    using run by blast
  have loop: "UnregisterServices_loop ?m1 = ?m1\<lparr>trace := trace ?m1 @ ?leavings\<rparr>"
    using run by (simp add: UnregisterServices_loop_eq)
  have dtor: "Manager_destructor parse pending m =
      (UnregisterServices_loop ?m1)\<lparr>registered_services := []\<rparr>"
    by (simp add: Manager_destructor_def UnregisterServices_def)
  have tr: "drop (length (trace m)) (trace (Manager_destructor parse pending m)) =
      new @ ?leavings"
    using new by (simp add: dtor loop)
  have fl: "filter is_LEAVING_broadcast ?leavings = ?leavings"
    by (simp add: filter_id_conv)
  have d: "distinct (registered_services m)"
    by (rule sorted_wrt_distinct [OF RegisteredService_lt_strict_linear assms])
  have cnt: "count_list (new @ ?leavings) (broadcast_of LEAVING m service) = 1"
    if "service \<in> set (registered_services m)" for service
  proof -
    have "is_LEAVING_broadcast (broadcast_of LEAVING m service)" by simp
    then have "broadcast_of LEAVING m service \<notin> set new"
      using new(2) by (metis filter_empty_conv)
    then show ?thesis
      using count_list_broadcast_of [OF d that] by simp
  qed
  show ?thesis
    using run loop dtor tr fl new(2) cnt by simp
qed

theorem Manager_destructor_emits_LEAVING_witness:
  "sorted_wrt RegisteredService_lt (registered_services example_manager)
   \<and> registered_services
       (Manager_destructor example_parse [example_datagram 5] example_manager) = []
   \<and> filter is_LEAVING_broadcast
       (trace (Manager_destructor example_parse [example_datagram 5] example_manager)) =
       [broadcast_of LEAVING example_manager \<lparr>RegisteredService.identifier = 1, port = 7000\<rparr>,
        broadcast_of LEAVING example_manager \<lparr>RegisteredService.identifier = 4, port = 9000\<rparr>]
   \<and> count_list
       (trace (Manager_destructor example_parse [example_datagram 5] example_manager))
       (broadcast_of LEAVING example_manager
          \<lparr>RegisteredService.identifier = 4, port = 9000\<rparr>) = 1"
proof -
  let ?s = "\<lparr>RegisteredService.identifier = 4, port = 9000\<rparr>"
  have w: "sorted_wrt RegisteredService_lt (registered_services example_manager)"
    by (simp add: example_manager_def RegisteredService_lt_iff)
  have a: "?s \<in> set (registered_services example_manager)"
    by (simp add: example_manager_def)
  have e: "trace example_manager = []"
    by (simp add: example_manager_def)
  have l: "registered_services example_manager =
      [\<lparr>RegisteredService.identifier = 1, port = 7000\<rparr>, ?s]"
    by (simp add: example_manager_def)
  let ?after = "Manager_destructor example_parse [example_datagram 5] example_manager"
  note dtor = Manager_destructor_emits_LEAVING
         [OF w, where parse = example_parse and pending = "[example_datagram 5]"]
  have c1: "?after =
      (UnregisterServices_loop (Run example_parse example_manager [example_datagram 5]))
        \<lparr>registered_services := []\<rparr>"
    using dtor by blast
  have c2: "registered_services ?after = []"
    by (subst c1) simp
  have c3: "filter is_LEAVING_broadcast (drop (length (trace example_manager)) (trace ?after)) =
      map (broadcast_of LEAVING example_manager) (registered_services example_manager)"
    using dtor by blast
  have c4: "count_list (drop (length (trace example_manager)) (trace ?after))
      (broadcast_of LEAVING example_manager ?s) = 1"
    using dtor a by blast
  show ?thesis using w c2 c3 c4 e l by simp
qed

end
